theory Spec2Isabelle
  imports Complex_Main "HOL-Library.Sublist"
begin

section \<open>Viewpoint selection and camera framing of model\_renderer.py\<close>

text \<open>
  The theory embeds \<^verbatim>\<open>ModelRenderer.find_best_front_views\<close>,
  \<^verbatim>\<open>ModelRenderer.get_preset_view\<close> and \<^verbatim>\<open>ModelRenderer.render_view\<close>.

  Numbers: the source computes in IEEE double precision; the model computes in \<^typ>\<open>real\<close>.
  Rounding, infinities and NaN are not modelled. Where numpy would produce NaN (a division of a
  zero vector by its zero norm) the model produces HOL's \<open>x / 0 = 0\<close>; the theorems that
  depend on it carry the hypothesis that the vector is not zero. Where Python itself raises
  (\<^verbatim>\<open>ZeroDivisionError\<close> on a division of two Python floats) the model raises.
\<close>

subsection \<open>Vectors (numpy arrays of three floats)\<close>

type_synonym vec3 = "real \<times> real \<times> real"

fun dot :: "vec3 \<Rightarrow> vec3 \<Rightarrow> real" where
  "dot (x1, y1, z1) (x2, y2, z2) = x1 * x2 + y1 * y2 + z1 * z2"

fun norm3 :: "vec3 \<Rightarrow> real" where
  "norm3 (x, y, z) = sqrt (x\<^sup>2 + y\<^sup>2 + z\<^sup>2)"

fun vdiv :: "vec3 \<Rightarrow> real \<Rightarrow> vec3" where
  "vdiv (x, y, z) c = (x / c, y / c, z / c)"

fun vmul :: "vec3 \<Rightarrow> real \<Rightarrow> vec3" where
  "vmul (x, y, z) c = (x * c, y * c, z * c)"

fun vneg :: "vec3 \<Rightarrow> vec3" where
  "vneg (x, y, z) = (- x, - y, - z)"

fun vsub :: "vec3 \<Rightarrow> vec3 \<Rightarrow> vec3" where
  "vsub (x1, y1, z1) (x2, y2, z2) = (x1 - x2, y1 - y2, z1 - z2)"

text \<open>\<^verbatim>\<open>v / np.linalg.norm(v)\<close>\<close>

definition normalize :: "vec3 \<Rightarrow> vec3" where
  "normalize v = vdiv v (norm3 v)"

subsection \<open>Errors and the mesh\<close>

datatype value_error =
    UnknownPreset string  \<comment> \<open>\<^verbatim>\<open>Unknown preset '{preset}'. Available: ...\<close>\<close>
  | MustSpecifyView       \<comment> \<open>\<^verbatim>\<open>Must specify either view_direction or preset\<close>\<close>
  | PCAInput              \<comment> \<open>raised by \<^verbatim>\<open>PCA.fit\<close> on too few samples\<close>

datatype py_error = ValueError value_error | ZeroDivisionError

type_synonym bounds6 = "real \<times> real \<times> real \<times> real \<times> real \<times> real"

text \<open>
  The fields of \<^verbatim>\<open>self.mesh\<close> and of \<^verbatim>\<open>self\<close> that the three methods read.
  \<open>cell_data_Normals\<close> is \<^verbatim>\<open>mesh.cell_data['Normals']\<close> when the key is present;
  \<open>face_normals\<close> is the property \<^verbatim>\<open>mesh.face_normals\<close>, \<open>None\<close> when reading it
  raises. \<open>max_dimension\<close> is the value stored by \<^verbatim>\<open>__init__\<close>.
\<close>

record mesh =
  points :: "vec3 list"
  n_cells :: nat
  cell_data_Normals :: "vec3 list option"
  face_normals :: "vec3 list option"
  bounds :: bounds6
  max_dimension :: real

subsection \<open>find\_best\_front\_views\<close>

type_synonym pca_axes = "vec3 \<times> vec3 \<times> vec3"

text \<open>
  \<^verbatim>\<open>pca = PCA(n_components=3); pca.fit(points)\<close> is scikit-learn's. The decomposition
  itself is the parameter \<open>axes\<close> (the three rows of \<^verbatim>\<open>pca.components_\<close>); what is kept of
  the library is its input check: fitting three components needs at least three samples, and
  fewer (also none) raise \<^verbatim>\<open>ValueError\<close>. The source has no check of its own.
\<close>

definition PCA_fit :: "(vec3 list \<Rightarrow> pca_axes) \<Rightarrow> vec3 list \<Rightarrow> py_error + pca_axes" where
  "PCA_fit axes pts =
     (if length pts < 3 then Inl (ValueError PCAInput) else Inr (axes pts))"

type_synonym candidate = "vec3 \<times> string \<times> bool"

definition priority_views :: "(vec3 \<times> string) list" where
  "priority_views = [((0, 0, 1), ''top''), ((0, -1, 0), ''front'')]"

definition standard_views :: "(vec3 \<times> string) list" where
  "standard_views =
     [((1, 0, 0), ''right''), ((-1, 0, 0), ''left''),
      ((0, 1, 0), ''back''),
      ((0, 0, -1), ''bottom''),
      ((1, 1, 0), ''diag_1''), ((1, 0, 1), ''diag_2'')]"

fun pca_candidates :: "pca_axes \<Rightarrow> candidate list" where
  "pca_candidates (c0, c1, c2) =
     [(c0, ''pca_0_pos'', False), (vneg c0, ''pca_0_neg'', False),
      (c1, ''pca_1_pos'', False), (vneg c1, ''pca_1_neg'', False),
      (c2, ''pca_2_pos'', False), (vneg c2, ''pca_2_neg'', False)]"

definition all_candidates :: "pca_axes \<Rightarrow> candidate list" where
  "all_candidates comps =
     map (\<lambda>(view_dir, name). (view_dir, name, True)) priority_views
     @ pca_candidates comps
     @ map (\<lambda>(view_dir, name). (vdiv view_dir (norm3 view_dir), name, False)) standard_views"

text \<open>\<^verbatim>\<open>max([abs(np.dot(view_dir, comp)) for comp in pca.components_])\<close>\<close>

fun pca_score :: "pca_axes \<Rightarrow> vec3 \<Rightarrow> real" where
  "pca_score (c0, c1, c2) view_dir =
     max (max \<bar>dot view_dir c0\<bar> \<bar>dot view_dir c1\<bar>) \<bar>dot view_dir c2\<bar>"

text \<open>
  The \<^verbatim>\<open>try\<close> block of the scoring loop. Reading \<^verbatim>\<open>mesh.face_normals\<close> is the step
  that can raise; the \<^verbatim>\<open>except\<close> branch then sets 0.6.
  \<^verbatim>\<open>np.sum(dot_products > 0) / len(face_normals)\<close> is the number of normals with a positive
  dot product over the number of normals. The arrays have one row for each cell and the
  branch is taken with at least one cell; on an empty array numpy would give NaN, which the
  model does not have (the statements about the fraction assume a non-empty array).
\<close>

definition visibility_score :: "mesh \<Rightarrow> vec3 \<Rightarrow> real" where
  "visibility_score m view_dir =
     (if n_cells m > 0 \<and> n_cells m < 100000 then
        (case (case cell_data_Normals m of Some ns \<Rightarrow> Some ns | None \<Rightarrow> face_normals m) of
           Some fns \<Rightarrow>
             real (length (filter (\<lambda>f. dot f view_dir > 0) fns)) / real (length fns)
         | None \<Rightarrow> 0.6)
      else 0.6)"

type_synonym scored_view = "vec3 \<times> real \<times> string"

fun score_view :: "mesh \<Rightarrow> pca_axes \<Rightarrow> candidate \<Rightarrow> scored_view" where
  "score_view m comps (view_dir0, name, is_priority) =
     (let view_dir = vdiv view_dir0 (norm3 view_dir0);
          pca_sc = pca_score comps view_dir;
          vis = visibility_score m view_dir;
          base_score = pca_sc * 2.0 + vis * 3.0;
          final_score = (if is_priority then base_score + 1.0 else base_score)
      in (view_dir, final_score, name))"

text \<open>
  \<^verbatim>\<open>scored_views.sort(key=lambda x: x[1], reverse=True)\<close>: Python's sort is stable, also
  with \<^verbatim>\<open>reverse=True\<close> (elements with equal keys keep their order). A stable ascending
  sort on the negated score is the same list.
\<close>

definition sort_by_score :: "scored_view list \<Rightarrow> scored_view list" where
  "sort_by_score vs = sort_key (\<lambda>(view_dir, score, name). - score) vs"

text \<open>
  The de-duplication loop: \<open>unique_views\<close> is the accumulator, the test of the length comes
  after the candidate has been handled, as in the source.
\<close>

definition is_unique :: "scored_view list \<Rightarrow> vec3 \<Rightarrow> bool" where
  "is_unique unique_views view_dir =
     (\<not> list_ex (\<lambda>(existing_view, _, _). dot view_dir existing_view > 0.9) unique_views)"

fun select_unique :: "int \<Rightarrow> scored_view list \<Rightarrow> scored_view list \<Rightarrow> scored_view list" where
  "select_unique n_views [] unique_views = unique_views"
| "select_unique n_views ((view_dir, score, name) # rest) unique_views =
     (let unique_views' =
            (if is_unique unique_views view_dir
             then unique_views @ [(view_dir, score, name)] else unique_views)
      in if int (length unique_views') \<ge> n_views then unique_views'
         else select_unique n_views rest unique_views')"

definition find_best_front_views ::
  "(vec3 list \<Rightarrow> pca_axes) \<Rightarrow> mesh \<Rightarrow> int \<Rightarrow> py_error + (vec3 \<times> real) list" where
  "find_best_front_views axes m n_views =
     (case PCA_fit axes (points m) of
        Inl e \<Rightarrow> Inl e
      | Inr comps \<Rightarrow>
          (let scored_views = map (score_view m comps) (all_candidates comps);
               unique_views = select_unique n_views (sort_by_score scored_views) []
           in Inr (map (\<lambda>(view_dir, score, name). (view_dir, score)) unique_views)))"

subsection \<open>Preset names\<close>

text \<open>
  \<^verbatim>\<open>str.lower()\<close> on the ASCII letters; every other character is left as it is (the model's
  strings are byte strings, the case mappings of Unicode beyond ASCII are not modelled).
\<close>

definition lower_char :: "char \<Rightarrow> char" where
  "lower_char c =
     (let k = (of_char c :: nat) in if 65 \<le> k \<and> k \<le> 90 then char_of (k + 32) else c)"

definition lower :: "string \<Rightarrow> string" where
  "lower s = map lower_char s"

text \<open>Python's truth value of the argument \<^verbatim>\<open>preset\<close>: \<^verbatim>\<open>None\<close> and \<^verbatim>\<open>""\<close> are false.\<close>

fun truthy :: "string option \<Rightarrow> bool" where
  "truthy None = False"
| "truthy (Some s) = (s \<noteq> [])"

text \<open>\<^verbatim>\<open>get_preset_view\<close>: the dictionary of (position, up) and \<^verbatim>\<open>presets.get\<close>.\<close>

definition get_preset_view :: "mesh \<Rightarrow> string \<Rightarrow> (vec3 \<times> vec3) option" where
  "get_preset_view m preset_name =
     (let camera_distance = max_dimension m * 4.0 in
      map_of
        [(''front'', ((0, - camera_distance, 0), (0, 0, 1))),
         (''back'', ((0, camera_distance, 0), (0, 0, 1))),
         (''top'', ((0, 0, camera_distance), (0, 1, 0))),
         (''bottom'', ((0, 0, - camera_distance), (0, 1, 0))),
         (''left'', ((- camera_distance, 0, 0), (0, 0, 1))),
         (''right'', ((camera_distance, 0, 0), (0, 0, 1)))]
        (lower preset_name))"

subsection \<open>render\_view\<close>

text \<open>
  What \<^verbatim>\<open>render_view\<close> sets on \<^verbatim>\<open>plotter.camera\<close>. \<open>zoom\<close> is the factor passed to
  \<^verbatim>\<open>camera.zoom\<close>, \<open>None\<close> when the call is skipped. What the external
  \<^verbatim>\<open>plotter.reset_camera()\<close> does to the camera afterwards is outside the model, and so are
  the file name and the rendering.
\<close>

record camera_frame =
  position :: vec3
  focal_point :: vec3
  up :: vec3
  view_angle :: real
  clipping_range :: "real \<times> real"
  zoom :: "real option"

fun x_size :: "bounds6 \<Rightarrow> real" where
  "x_size (b0, b1, b2, b3, b4, b5) = b1 - b0"

fun y_size :: "bounds6 \<Rightarrow> real" where
  "y_size (b0, b1, b2, b3, b4, b5) = b3 - b2"

fun z_size :: "bounds6 \<Rightarrow> real" where
  "z_size (b0, b1, b2, b3, b4, b5) = b5 - b4"

definition max_size :: "bounds6 \<Rightarrow> real" where
  "max_size b = max (max (x_size b) (y_size b)) (z_size b)"

definition diagonal_size :: "bounds6 \<Rightarrow> real" where
  "diagonal_size b = sqrt ((x_size b)\<^sup>2 + (y_size b)\<^sup>2 + (z_size b)\<^sup>2)"

text \<open>
  Lines 194 to 215: the first choice of the camera. It returns \<open>camera_position\<close>,
  \<open>camera_up\<close> and the (normalised) \<open>view_direction\<close>; both first values are overwritten
  by the second choice below.
\<close>

definition first_camera ::
  "mesh \<Rightarrow> vec3 option \<Rightarrow> string option \<Rightarrow> py_error + (vec3 \<times> vec3 \<times> vec3 option)" where
  "first_camera m view_direction preset =
     (if truthy preset then
        (case get_preset_view m (the preset) of
           None \<Rightarrow> Inl (ValueError (UnknownPreset (the preset)))
         | Some (pos, upv) \<Rightarrow> Inr (pos, upv, view_direction))
      else
        (case view_direction of
           None \<Rightarrow> Inl (ValueError MustSpecifyView)
         | Some d \<Rightarrow>
             (let view_dir = normalize d;
                  camera_distance = max_dimension m * 5.5
              in Inr (vmul (vneg view_dir) camera_distance, (0, 0, 1), Some view_dir))))"

text \<open>
  Lines 261 to 294: the camera that is used, (position, focal point, up). \<open>mesh_center\<close>
  is the constant \<^verbatim>\<open>[0, 0, 0]\<close>.
\<close>

definition mesh_center :: vec3 where
  "mesh_center = (0, 0, 0)"

definition place_camera ::
  "real \<Rightarrow> vec3 option \<Rightarrow> string option \<Rightarrow> py_error + (vec3 \<times> vec3 \<times> vec3)" where
  "place_camera camera_distance view_direction preset =
     (case mesh_center of (cx, cy, cz) \<Rightarrow>
      if truthy preset then
        (let p = lower (the preset) in
         if p = ''top'' then Inr ((cx, cy, cz + camera_distance), mesh_center, (0, 1, 0))
         else if p = ''front'' then Inr ((cx, cy - camera_distance, cz), mesh_center, (0, 0, 1))
         else if p = ''back'' then Inr ((cx, cy + camera_distance, cz), mesh_center, (0, 0, 1))
         else if p = ''left'' then Inr ((cx - camera_distance, cy, cz), mesh_center, (0, 0, 1))
         else if p = ''right'' then Inr ((cx + camera_distance, cy, cz), mesh_center, (0, 0, 1))
         else if p = ''bottom'' then Inr ((cx, cy, cz - camera_distance), mesh_center, (0, 1, 0))
         else Inl (ValueError (UnknownPreset (the preset))))
      else
        (case view_direction of
           None \<Rightarrow> Inl (ValueError MustSpecifyView)  \<comment> \<open>not reached: line 208 has raised\<close>
         | Some d \<Rightarrow>
             (let view_dir = normalize d
              in Inr (vsub mesh_center (vmul view_dir camera_distance), mesh_center,
                      (0, 0, 1)))))"

text \<open>
  Lines 313 to 324: the zoom. \<open>current_bounds\<close> is what
  \<^verbatim>\<open>plotter.renderer.ComputeVisiblePropBounds()\<close> returned: \<open>None\<close> or a sequence.
  \<^verbatim>\<open>visible_width / max_size\<close> divides two Python floats and raises on a zero divisor.
\<close>

definition zoom_step :: "real \<Rightarrow> real list option \<Rightarrow> py_error + real option" where
  "zoom_step max_sz current_bounds =
     (case current_bounds of
        None \<Rightarrow> Inr None
      | Some cb \<Rightarrow>
          if cb \<noteq> [] \<and> length cb \<ge> 6 then
            (let visible_width = max (cb ! 1 - cb ! 0) (cb ! 3 - cb ! 2);
                 target_fill = 0.875
             in if visible_width > 0 then
                  (if max_sz = 0 then Inl ZeroDivisionError
                   else
                     (let zoom_factor = target_fill / (visible_width / max_sz)
                      in Inr (Some (max 0.5 (min 3.0 zoom_factor)))))
                else Inr None)
          else Inr None)"

definition render_view ::
  "mesh \<Rightarrow> vec3 option \<Rightarrow> string option \<Rightarrow> real list option \<Rightarrow> py_error + camera_frame" where
  "render_view m view_direction preset current_bounds =
     (case first_camera m view_direction preset of
        Inl e \<Rightarrow> Inl e
      | Inr (camera_position0, camera_up0, view_direction1) \<Rightarrow>
          (let max_sz = max_size (bounds m);
               diag = diagonal_size (bounds m);
               camera_distance = diag * 1.8
           in case place_camera camera_distance view_direction1 preset of
                Inl e \<Rightarrow> Inl e
              | Inr (camera_position, focal, camera_up) \<Rightarrow>
                  (let distance = norm3 (vsub camera_position focal);
                       near_clip = max (distance - diag) (distance * 0.1);
                       far_clip = distance + diag
                   in case zoom_step max_sz current_bounds of
                        Inl e \<Rightarrow> Inl e
                      | Inr z \<Rightarrow>
                          Inr \<lparr>position = camera_position, focal_point = focal,
                               up = camera_up, view_angle = 30.0,
                               clipping_range = (near_clip, far_clip), zoom = z\<rparr>)))"

subsection \<open>Notions used in the statements\<close>

text \<open>
  The test of the de-duplication loop, on two scored views: \<open>b\<close> (the later one) is kept
  beside \<open>a\<close> when the raw dot product of the directions is at most 0.9.
\<close>

definition dissimilar :: "scored_view \<Rightarrow> scored_view \<Rightarrow> bool" where
  "dissimilar a b = (dot (fst b) (fst a) \<le> 0.9)"

text \<open>The names listed by the error message of \<^verbatim>\<open>render_view\<close>.\<close>

definition preset_names :: "string list" where
  "preset_names = [''front'', ''back'', ''top'', ''bottom'', ''left'', ''right'']"

text \<open>
  The branches of lines 262 to 286 as a table: name, the axis direction of the camera
  position (the position is this direction times \<open>camera_distance\<close>), up vector.
\<close>

definition preset_table :: "(string \<times> vec3 \<times> vec3) list" where
  "preset_table =
     [(''top'', (0, 0, 1), (0, 1, 0)),
      (''front'', (0, -1, 0), (0, 0, 1)),
      (''back'', (0, 1, 0), (0, 0, 1)),
      (''left'', (-1, 0, 0), (0, 0, 1)),
      (''right'', (1, 0, 0), (0, 0, 1)),
      (''bottom'', (0, 0, -1), (0, 1, 0))]"

text \<open>A call names a view: a non-empty preset that is known, or else a direction.\<close>

definition valid_request :: "vec3 option \<Rightarrow> string option \<Rightarrow> bool" where
  "valid_request view_direction preset =
     (if truthy preset then lower (the preset) \<in> set preset_names
      else view_direction \<noteq> None)"

text \<open>
  The camera that \<^verbatim>\<open>render_view\<close> sets for a position and an up vector, the focal point
  being the origin.
\<close>

definition frame_of :: "mesh \<Rightarrow> vec3 \<Rightarrow> vec3 \<Rightarrow> real option \<Rightarrow> camera_frame" where
  "frame_of m pos upv z =
     \<lparr>position = pos, focal_point = (0, 0, 0), up = upv, view_angle = 30,
      clipping_range =
        (max (norm3 pos - diagonal_size (bounds m)) (norm3 pos * 0.1),
         norm3 pos + diagonal_size (bounds m)),
      zoom = z\<rparr>"

text \<open>
  \<^verbatim>\<open>visible_width\<close> of line 315, for a sequence of at least six bounds.
\<close>

definition visible_width :: "real list \<Rightarrow> real" where
  "visible_width cb = max (cb ! 1 - cb ! 0) (cb ! 3 - cb ! 2)"

subsection \<open>Three concrete meshes\<close>

text \<open>
  A box of 4 by 2 by 1 centred at the origin, with its six faces; its principal axes are the
  coordinate axes, in the order of decreasing extent.
\<close>

definition box_mesh :: mesh where
  "box_mesh =
     \<lparr>points = [(-2, -1, -1/2), (2, -1, -1/2), (2, 1, -1/2), (-2, 1, -1/2),
                (-2, -1, 1/2), (2, -1, 1/2), (2, 1, 1/2), (-2, 1, 1/2)],
      n_cells = 6,
      cell_data_Normals = None,
      face_normals =
        Some [(0, 0, -1), (0, 0, 1), (0, -1, 0), (0, 1, 0), (-1, 0, 0), (1, 0, 0)],
      bounds = (-2, 2, -1, 1, -1/2, 1/2),
      max_dimension = 4\<rparr>"

definition box_axes :: "vec3 list \<Rightarrow> pca_axes" where
  "box_axes pts = ((1, 0, 0), (0, 1, 0), (0, 0, 1))"

text \<open>A mesh of one point at the origin: every extent is zero.\<close>

definition point_mesh :: mesh where
  "point_mesh =
     \<lparr>points = [(0, 0, 0)], n_cells = 1, cell_data_Normals = None, face_normals = None,
      bounds = (0, 0, 0, 0, 0, 0), max_dimension = 0\<rparr>"

text \<open>
  A mesh without points or cells; its bounds are the uninitialised bounds of VTK.
\<close>

definition empty_mesh :: mesh where
  "empty_mesh =
     \<lparr>points = [], n_cells = 0, cell_data_Normals = None, face_normals = None,
      bounds = (1, -1, 1, -1, 1, -1), max_dimension = -2\<rparr>"

section \<open>Auxiliary facts\<close>

subsection \<open>Vectors\<close>

lemma dot_commute: "dot a b = dot b a"
  by (cases a; cases b) (simp add: mult.commute)

lemma vsub_zero: "vsub pos (0, 0, 0) = pos"
  by (cases pos) simp

lemma norm3_nonneg: "0 \<le> norm3 v"
  by (cases v) simp

lemma norm3_normalize:
  assumes "norm3 d \<noteq> 0"
  shows "norm3 (normalize d) = 1"
proof -
  obtain x y z where d: "d = (x, y, z)" by (cases d)
  have "(x / norm3 d)\<^sup>2 + (y / norm3 d)\<^sup>2 + (z / norm3 d)\<^sup>2
          = (x\<^sup>2 + y\<^sup>2 + z\<^sup>2) / (norm3 d)\<^sup>2"
    by (simp add: power_divide add_divide_distrib)
  also have "\<dots> = 1" using assms by (simp add: d)
  finally show ?thesis by (simp add: normalize_def d)
qed

lemma normalize_unit: "norm3 d = 1 \<Longrightarrow> normalize d = d"
  by (cases d) (simp add: normalize_def)

lemma normalize_idem: "normalize (normalize d) = normalize d"
proof (cases "norm3 d = 0")
  case True
  then show ?thesis by (cases d) (simp add: normalize_def)
next
  case False
  then show ?thesis by (simp add: normalize_unit norm3_normalize)
qed

lemma norm3_units:
  "norm3 (0, 0, 1) = 1" "norm3 (0, -1, 0) = 1" "norm3 (1, 0, 0) = 1"
  "norm3 (-1, 0, 0) = 1" "norm3 (0, 1, 0) = 1" "norm3 (0, 0, -1) = 1"
  "norm3 (1 / sqrt 2, 1 / sqrt 2, 0) = 1" "norm3 (1 / sqrt 2, 0, 1 / sqrt 2) = 1"
  by (simp_all add: power_divide)

subsection \<open>The de-duplication loop\<close>

lemma is_unique_iff: "is_unique acc d = (\<forall>e\<in>set acc. dot d (fst e) \<le> 0.9)"
  unfolding is_unique_def list_ex_iff by (auto simp: not_less split: prod.splits)

lemma select_unique_dissimilar:
  "sorted_wrt dissimilar acc \<Longrightarrow> sorted_wrt dissimilar (select_unique n vs acc)"
proof (induction vs arbitrary: acc)
  case Nil
  then show ?case by simp
next
  case (Cons v vs)
  obtain d s nm where v: "v = (d, s, nm)" by (cases v)
  show ?case
  proof (cases "is_unique acc d")
    case True
    then have "\<forall>e\<in>set acc. dissimilar e v"
      by (simp add: is_unique_iff dissimilar_def v)
    then have "sorted_wrt dissimilar (acc @ [v])"
      using Cons.prems by (simp add: sorted_wrt_append)
    then show ?thesis
      using True Cons.IH[of "acc @ [v]"] by (simp add: v Let_def)
  next
    case False
    then show ?thesis
      using Cons.IH[of acc] Cons.prems by (simp add: v Let_def)
  qed
qed

subsection \<open>The box, evaluated\<close>

lemma box_candidates:
  "all_candidates (box_axes pts) =
     [((0, 0, 1), ''top'', True), ((0, -1, 0), ''front'', True),
      ((1, 0, 0), ''pca_0_pos'', False), ((-1, 0, 0), ''pca_0_neg'', False),
      ((0, 1, 0), ''pca_1_pos'', False), ((0, -1, 0), ''pca_1_neg'', False),
      ((0, 0, 1), ''pca_2_pos'', False), ((0, 0, -1), ''pca_2_neg'', False),
      ((1, 0, 0), ''right'', False), ((-1, 0, 0), ''left'', False),
      ((0, 1, 0), ''back'', False), ((0, 0, -1), ''bottom'', False),
      ((1 / sqrt 2, 1 / sqrt 2, 0), ''diag_1'', False),
      ((1 / sqrt 2, 0, 1 / sqrt 2), ''diag_2'', False)]"
  by (simp add: all_candidates_def box_axes_def priority_views_def standard_views_def)

lemma box_scored:
  "map (score_view box_mesh (box_axes pts)) (all_candidates (box_axes pts)) =
     [((0, 0, 1), 7/2, ''top''), ((0, -1, 0), 7/2, ''front''),
      ((1, 0, 0), 5/2, ''pca_0_pos''), ((-1, 0, 0), 5/2, ''pca_0_neg''),
      ((0, 1, 0), 5/2, ''pca_1_pos''), ((0, -1, 0), 5/2, ''pca_1_neg''),
      ((0, 0, 1), 5/2, ''pca_2_pos''), ((0, 0, -1), 5/2, ''pca_2_neg''),
      ((1, 0, 0), 5/2, ''right''), ((-1, 0, 0), 5/2, ''left''),
      ((0, 1, 0), 5/2, ''back''), ((0, 0, -1), 5/2, ''bottom''),
      ((1 / sqrt 2, 1 / sqrt 2, 0), 2 / sqrt 2 + 1, ''diag_1''),
      ((1 / sqrt 2, 0, 1 / sqrt 2), 2 / sqrt 2 + 1, ''diag_2'')]"
  unfolding box_candidates
  by (simp add: norm3_units box_axes_def visibility_score_def box_mesh_def del: norm3.simps)

lemma box_sorted:
  "sort_by_score (map (score_view box_mesh (box_axes pts)) (all_candidates (box_axes pts))) =
     [((0, 0, 1), 7/2, ''top''), ((0, -1, 0), 7/2, ''front''),
      ((1, 0, 0), 5/2, ''pca_0_pos''), ((-1, 0, 0), 5/2, ''pca_0_neg''),
      ((0, 1, 0), 5/2, ''pca_1_pos''), ((0, -1, 0), 5/2, ''pca_1_neg''),
      ((0, 0, 1), 5/2, ''pca_2_pos''), ((0, 0, -1), 5/2, ''pca_2_neg''),
      ((1, 0, 0), 5/2, ''right''), ((-1, 0, 0), 5/2, ''left''),
      ((0, 1, 0), 5/2, ''back''), ((0, 0, -1), 5/2, ''bottom''),
      ((1 / sqrt 2, 1 / sqrt 2, 0), 2 / sqrt 2 + 1, ''diag_1''),
      ((1 / sqrt 2, 0, 1 / sqrt 2), 2 / sqrt 2 + 1, ''diag_2'')]"
proof -
  have a: "2 / sqrt 2 = sqrt 2" by (simp add: real_div_sqrt)
  have b: "sqrt 2 < 3/2" by (rule real_less_lsqrt) (simp_all add: power2_eq_square)
  show ?thesis unfolding box_scored sort_by_score_def using b by (simp add: a)
qed

lemma box_PCA_fit: "PCA_fit box_axes (points box_mesh) = Inr (box_axes (points box_mesh))"
  by (simp add: PCA_fit_def box_mesh_def)

lemma box_best_4:
  "find_best_front_views box_axes box_mesh 4 =
     Inr [((0, 0, 1), 7/2), ((0, -1, 0), 7/2), ((1, 0, 0), 5/2), ((-1, 0, 0), 5/2)]"
  by (simp add: find_best_front_views_def box_PCA_fit box_sorted is_unique_def)

lemma box_best_0:
  "find_best_front_views box_axes box_mesh 0 = Inr [((0, 0, 1), 7/2)]"
  by (simp add: find_best_front_views_def box_PCA_fit box_sorted is_unique_def)

lemma box_sizes:
  "max_size (bounds box_mesh) = 4" "diagonal_size (bounds box_mesh) = sqrt 21"
  by (simp_all add: box_mesh_def max_size_def diagonal_size_def)

subsection \<open>Ranking: length, order, ties, unit directions\<close>

lemma select_unique_length:
  "int (length acc) < n \<Longrightarrow> int (length (select_unique n vs acc)) \<le> n"
proof (induction vs arbitrary: acc)
  case Nil
  then show ?case by simp
next
  case (Cons v vs)
  obtain d s nm where v: "v = (d, s, nm)" by (cases v)
  show ?case using Cons.prems Cons.IH[of acc] Cons.IH[of "acc @ [v]"]
    by (auto simp: v Let_def)
qed

lemma select_unique_first:
  "n \<le> 0 \<Longrightarrow> select_unique n (v # vs) [] = [v]"
  by (cases v) (simp add: is_unique_def Let_def)

lemma select_unique_sorted_wrt:
  "sorted_wrt P (acc @ vs) \<Longrightarrow> sorted_wrt P (select_unique n vs acc)"
proof (induction vs arbitrary: acc)
  case Nil
  then show ?case by simp
next
  case (Cons v vs)
  obtain d s nm where v: "v = (d, s, nm)" by (cases v)
  have a: "sorted_wrt P ((acc @ [v]) @ vs)" using Cons.prems by simp
  have b: "sorted_wrt P (acc @ vs)" using Cons.prems by (auto simp: sorted_wrt_append)
  have c: "sorted_wrt P (acc @ [v])" using a by (simp add: sorted_wrt_append)
  have d: "sorted_wrt P acc" using b by (simp add: sorted_wrt_append)
  show ?case using Cons.IH[OF a] Cons.IH[OF b] c d
    by (simp add: v Let_def del: append_assoc)
qed

lemma select_unique_subseq: "subseq (select_unique n vs acc) (acc @ vs)"
proof (induction vs arbitrary: acc)
  case Nil
  then show ?case by simp
next
  case (Cons v vs)
  obtain d s nm where v: "v = (d, s, nm)" by (cases v)
  have a: "subseq (select_unique n vs (acc @ [v])) (acc @ v # vs)"
    using Cons.IH[of "acc @ [v]"] by simp
  have "subseq vs (v # vs)" by (rule list_emb_Cons) simp
  then have "subseq (acc @ vs) (acc @ v # vs)" by (simp add: subseq_append')
  with Cons.IH[of acc] have b: "subseq (select_unique n vs acc) (acc @ v # vs)"
    by (rule subseq_order.trans)
  have c: "subseq (acc @ [v]) (acc @ v # vs)" by (simp add: subseq_append')
  have d: "subseq acc (acc @ v # vs)" by (rule subseq_rev_drop_many) simp
  show ?case using a b c d by (simp add: v Let_def del: subseq_append)
qed

lemma find_best_Inr:
  assumes "find_best_front_views axes m n = Inr r"
  obtains comps where "PCA_fit axes (points m) = Inr comps"
    and "r = map (\<lambda>(view_dir, score, name). (view_dir, score))
           (select_unique n (sort_by_score (map (score_view m comps) (all_candidates comps))) [])"
  using assms by (auto simp: find_best_front_views_def Let_def split: sum.splits)

lemma sort_by_score_descending: "sorted_wrt (\<lambda>a b. fst (snd a) \<ge> fst (snd b)) (sort_by_score vs)"
proof -
  have "sorted (map (\<lambda>(view_dir, score, name). - score) (sort_by_score vs))"
    unfolding sort_by_score_def by (rule sorted_sort_key)
  then show ?thesis
    by (simp add: sorted_map case_prod_unfold)
qed

lemma sort_by_score_stable:
  "filter (\<lambda>v. fst (snd v) = k) (sort_by_score vs) = filter (\<lambda>v. fst (snd v) = k) vs"
proof -
  have "filter (\<lambda>y. (case y of (view_dir, score, name) \<Rightarrow> - score) = - k) (sort_by_score vs)
      = filter (\<lambda>y. (case y of (view_dir, score, name) \<Rightarrow> - score) = - k) vs"
    unfolding sort_by_score_def by (rule sort_key_stable)
  then show ?thesis by (simp add: case_prod_unfold)
qed

lemma find_best_length:
  assumes "find_best_front_views axes m n = Inr r"
  shows "(1 \<le> n \<longrightarrow> int (length r) \<le> n) \<and> (n \<le> 0 \<longrightarrow> length r = 1) \<and> length r \<le> 14"
proof -
  obtain comps where r: "r = map (\<lambda>(view_dir, score, name). (view_dir, score))
           (select_unique n (sort_by_score (map (score_view m comps) (all_candidates comps))) [])"
    using assms by (rule find_best_Inr)
  define S where "S = sort_by_score (map (score_view m comps) (all_candidates comps))"
  have len: "length S = 14"
    by (cases comps) (simp add: S_def sort_by_score_def all_candidates_def priority_views_def standard_views_def)
  then obtain v vs where S: "S = v # vs" by (cases S) auto
  have 1: "1 \<le> n \<Longrightarrow> int (length (select_unique n S [])) \<le> n"
    by (rule select_unique_length) simp
  have 2: "n \<le> 0 \<Longrightarrow> length (select_unique n S []) = 1"
    unfolding S by (simp add: select_unique_first)
  have "length (select_unique n S []) \<le> length ([] @ S)"
    using select_unique_subseq by (rule list_emb_length)
  then show ?thesis using 1 2 len by (simp add: r S_def[symmetric])
qed

lemma find_best_descending:
  assumes "find_best_front_views axes m n = Inr r"
  shows "sorted_wrt (\<lambda>a b. snd a \<ge> snd b) r"
proof -
  obtain comps where r: "r = map (\<lambda>(view_dir, score, name). (view_dir, score))
           (select_unique n (sort_by_score (map (score_view m comps) (all_candidates comps))) [])"
    using assms by (rule find_best_Inr)
  have "sorted_wrt (\<lambda>a b. fst (snd a) \<ge> fst (snd b))
          (select_unique n (sort_by_score (map (score_view m comps) (all_candidates comps))) [])"
    by (rule select_unique_sorted_wrt) (simp add: sort_by_score_descending)
  then show ?thesis by (simp add: r sorted_wrt_map case_prod_unfold)
qed

lemma find_best_ties:
  assumes "find_best_front_views axes m n = Inr r"
    and "PCA_fit axes (points m) = Inr comps"
  shows "subseq (filter (\<lambda>p. snd p = k) r)
           (filter (\<lambda>p. snd p = k)
              (map (\<lambda>(view_dir, score, name). (view_dir, score))
                 (map (score_view m comps) (all_candidates comps))))"
proof -
  define scored where "scored = map (score_view m comps) (all_candidates comps)"
  define u where "u = select_unique n (sort_by_score scored) []"
  have r: "r = map (\<lambda>(view_dir, score, name). (view_dir, score)) u"
    using assms by (simp add: find_best_front_views_def u_def scored_def Let_def)
  have "subseq u (sort_by_score scored)"
    using select_unique_subseq[of n "sort_by_score scored" "[]"] by (simp add: u_def)
  then have "subseq (filter (\<lambda>v. fst (snd v) = k) u) (filter (\<lambda>v. fst (snd v) = k) scored)"
    using subseq_filter[of u "sort_by_score scored" "\<lambda>v. fst (snd v) = k"]
    by (simp add: sort_by_score_stable)
  then have "subseq (map (\<lambda>(view_dir, score, name). (view_dir, score)) (filter (\<lambda>v. fst (snd v) = k) u))
      (map (\<lambda>(view_dir, score, name). (view_dir, score)) (filter (\<lambda>v. fst (snd v) = k) scored))"
    by (rule subseq_map)
  then show ?thesis
    by (simp add: r scored_def[symmetric] filter_map comp_def case_prod_unfold)
qed

lemma candidate_norms:
  assumes "norm3 c0 \<noteq> 0" "norm3 c1 \<noteq> 0" "norm3 c2 \<noteq> 0"
    and "(v, nm, p) \<in> set (all_candidates (c0, c1, c2))"
  shows "norm3 v \<noteq> 0"
proof -
  have neg: "\<And>c. norm3 (vneg c) = norm3 c" by (case_tac c) simp
  show ?thesis
    using assms(4) assms(1-3) neg[of c0] neg[of c1] neg[of c2]
    by (auto simp: all_candidates_def priority_views_def standard_views_def simp del: norm3.simps)
      (simp_all add: power_divide)
qed

lemma find_best_unit:
  assumes "find_best_front_views axes m n = Inr r"
    and "PCA_fit axes (points m) = Inr (c0, c1, c2)"
    and "norm3 c0 \<noteq> 0" "norm3 c1 \<noteq> 0" "norm3 c2 \<noteq> 0"
    and "(d, s) \<in> set r"
  shows "norm3 d = 1"
proof -
  define scored where "scored = map (score_view m (c0, c1, c2)) (all_candidates (c0, c1, c2))"
  define u where "u = select_unique n (sort_by_score scored) []"
  have r: "r = map (\<lambda>(view_dir, score, name). (view_dir, score)) u"
    using assms(1,2) by (simp add: find_best_front_views_def u_def scored_def Let_def)
  have "subseq u (sort_by_score scored)"
    using select_unique_subseq[of n "sort_by_score scored" "[]"] by (simp add: u_def)
  then have "set u \<subseteq> set (sort_by_score scored)"
    by (auto dest: list_emb_set)
  then have su: "set u \<subseteq> set scored" by (simp add: sort_by_score_def)
  obtain nm where "(d, s, nm) \<in> set u" using assms(6) by (auto simp: r)
  then have "(d, s, nm) \<in> set scored" using su by blast
  then obtain v nm' p where c: "(v, nm', p) \<in> set (all_candidates (c0, c1, c2))"
    and sv: "score_view m (c0, c1, c2) (v, nm', p) = (d, s, nm)"
    unfolding scored_def by auto
  have "norm3 v \<noteq> 0" using candidate_norms[OF assms(3-5) c] .
  then have "norm3 (normalize v) = 1" by (rule norm3_normalize)
  moreover have "d = normalize v" using sv by (simp add: Let_def normalize_def)
  ultimately show ?thesis by simp
qed

lemma Max3: "Max ((\<lambda>a. \<bar>dot d a\<bar>) ` {c0, c1, c2}) = max (max \<bar>dot d c0\<bar> \<bar>dot d c1\<bar>) \<bar>dot d c2\<bar>"
  by (simp add: max.assoc)

subsection \<open>Preset names\<close>

lemma lower_char_idem: "lower_char (lower_char c) = lower_char c"
  by (auto simp: lower_char_def Let_def)

lemma lower_idem: "lower (lower s) = lower s"
  by (simp add: lower_def lower_char_idem)

lemma lower_Nil_iff: "lower s = [] \<longleftrightarrow> s = []"
  by (simp add: lower_def)

lemma get_preset_view_None: "get_preset_view m p = None \<longleftrightarrow> lower p \<notin> set preset_names"
  by (simp add: get_preset_view_def preset_names_def Let_def)

lemma preset_table_names:
  "lower p \<in> set preset_names \<longleftrightarrow> (\<exists>axis upv. (lower p, axis, upv) \<in> set preset_table)"
  by (auto simp: preset_names_def preset_table_def)

lemma norm3_table_axis: "(nm, axis, upv) \<in> set preset_table \<Longrightarrow> norm3 axis = 1"
  by (auto simp: preset_table_def)

subsection \<open>What render\_view returns\<close>

lemma norm3_vmul: "norm3 (vmul a c) = norm3 a * \<bar>c\<bar>"
proof -
  obtain x y z where a: "a = (x, y, z)" by (cases a)
  have "(x * c)\<^sup>2 + (y * c)\<^sup>2 + (z * c)\<^sup>2 = (x\<^sup>2 + y\<^sup>2 + z\<^sup>2) * c\<^sup>2"
    by (simp add: power_mult_distrib distrib_right)
  then show ?thesis by (simp add: a real_sqrt_mult)
qed

lemma diagonal_size_nonneg: "0 \<le> diagonal_size b"
  by (simp add: diagonal_size_def)

lemma zoom_step_range:
  "zoom_step ms cb = Inr (Some z) \<Longrightarrow> 0.5 \<le> z \<and> z \<le> 3.0"
  by (auto simp: zoom_step_def Let_def split: option.splits if_splits)

lemma zoom_step_applied:
  "ms \<noteq> 0 \<Longrightarrow> 6 \<le> length cb \<Longrightarrow> 0 < visible_width cb \<Longrightarrow>
   zoom_step ms (Some cb) = Inr (Some (max 0.5 (min 3.0 (0.875 / (visible_width cb / ms)))))"
  by (auto simp: zoom_step_def visible_width_def Let_def)

lemma zoom_step_skipped:
  "cbo = None \<or> (\<exists>cb. cbo = Some cb \<and> (length cb < 6 \<or> visible_width cb \<le> 0)) \<Longrightarrow>
   zoom_step ms cbo = Inr None"
  by (auto simp: zoom_step_def visible_width_def Let_def)

lemma place_camera_preset:
  assumes "p \<noteq> []" "(lower p, axis, upv) \<in> set preset_table"
  shows "place_camera cd vd (Some p) = Inr (vmul axis cd, (0, 0, 0), upv)"
  using assms by (auto simp: place_camera_def preset_table_def mesh_center_def Let_def)

lemma place_camera_direction:
  "place_camera cd (Some d) None = Inr (vmul (vneg (normalize d)) cd, (0, 0, 0), (0, 0, 1))"
  "place_camera cd (Some d) (Some []) = Inr (vmul (vneg (normalize d)) cd, (0, 0, 0), (0, 0, 1))"
  by (cases "normalize d"; simp add: place_camera_def mesh_center_def Let_def)+

lemma render_view_preset:
  assumes "(lower p, axis, upv) \<in> set preset_table"
    and "zoom_step (max_size (bounds m)) cb = Inr z"
  shows "render_view m vd (Some p) cb =
           Inr (frame_of m (vmul axis (diagonal_size (bounds m) * 1.8)) upv z)"
proof -
  have ne: "p \<noteq> []" using assms(1) by (auto simp: preset_table_def lower_def)
  have "lower p \<in> set preset_names"
    using assms(1) by (auto simp: preset_table_def preset_names_def)
  then obtain pos0 up0 where g: "get_preset_view m p = Some (pos0, up0)"
    using get_preset_view_None[of m p] by (cases "get_preset_view m p") auto
  have fc: "first_camera m vd (Some p) = Inr (pos0, up0, vd)"
    using ne g by (simp add: first_camera_def)
  show ?thesis
    using assms(2)
    by (simp add: render_view_def fc place_camera_preset[OF ne assms(1)] Let_def
        frame_of_def vsub_zero)
qed

lemma render_view_direction:
  assumes "\<not> truthy pr" and "zoom_step (max_size (bounds m)) cb = Inr z"
  shows "render_view m (Some d) pr cb =
           Inr (frame_of m (vmul (vneg (normalize d)) (diagonal_size (bounds m) * 1.8))
                  (0, 0, 1) z)"
proof -
  have pr: "pr = None \<or> pr = Some []" using assms(1) by (cases pr) auto
  have fc: "first_camera m (Some d) pr =
      Inr (vmul (vneg (normalize d)) (max_dimension m * 5.5), (0, 0, 1), Some (normalize d))"
    using assms(1) by (simp add: first_camera_def Let_def)
  have pc: "\<And>cd. place_camera cd (Some (normalize d)) pr =
      Inr (vmul (vneg (normalize d)) cd, (0, 0, 0), (0, 0, 1))"
    using pr place_camera_direction[of _ "normalize d"] by (auto simp: normalize_idem)
  show ?thesis
    using assms(2) by (simp add: render_view_def fc pc Let_def frame_of_def vsub_zero)
qed

lemma render_view_invalid:
  "\<not> valid_request vd pr \<Longrightarrow>
   render_view m vd pr cb =
     Inl (ValueError (if truthy pr then UnknownPreset (the pr) else MustSpecifyView))"
  using get_preset_view_None[of m "the pr"]
  by (cases vd) (auto simp: valid_request_def render_view_def first_camera_def split: if_splits)

lemma render_view_valid:
  assumes "valid_request vd pr" and "zoom_step (max_size (bounds m)) cb = Inr z"
  shows "\<exists>a upv. render_view m vd pr cb =
           Inr (frame_of m (vmul a (diagonal_size (bounds m) * 1.8)) upv z)"
proof (cases "truthy pr")
  case True
  then obtain p where p: "pr = Some p" by (cases pr) auto
  then obtain axis upv where "(lower p, axis, upv) \<in> set preset_table"
    using assms(1) True preset_table_names[of p] by (auto simp: valid_request_def)
  from render_view_preset[OF this assms(2)] show ?thesis unfolding p by blast
next
  case False
  then obtain d where "vd = Some d" using assms(1) by (auto simp: valid_request_def)
  with render_view_direction[OF False assms(2)] show ?thesis by blast
qed

lemma render_view_zoom_error:
  assumes "valid_request vd pr" and "zoom_step (max_size (bounds m)) cb = Inl e"
  shows "render_view m vd pr cb = Inl e"
proof (cases "truthy pr")
  case True
  then obtain p where p: "pr = Some p" and ne: "p \<noteq> []" by (cases pr) auto
  then obtain axis upv where t: "(lower p, axis, upv) \<in> set preset_table"
    using assms(1) True preset_table_names[of p] by (auto simp: valid_request_def)
  have "lower p \<in> set preset_names" using t preset_table_names by blast
  then obtain pos0 up0 where g: "get_preset_view m p = Some (pos0, up0)"
    using get_preset_view_None[of m p] by (cases "get_preset_view m p") auto
  have fc: "first_camera m vd (Some p) = Inr (pos0, up0, vd)"
    using ne g by (simp add: first_camera_def)
  show ?thesis
    using assms(2)
    by (simp add: p render_view_def fc place_camera_preset[OF ne t] Let_def)
next
  case False
  then obtain d where d: "vd = Some d" using assms(1) by (auto simp: valid_request_def)
  have pr: "pr = None \<or> pr = Some []" using False by (cases pr) auto
  have fc: "first_camera m (Some d) pr =
      Inr (vmul (vneg (normalize d)) (max_dimension m * 5.5), (0, 0, 1), Some (normalize d))"
    using False by (simp add: first_camera_def Let_def)
  have pc: "\<And>cd. place_camera cd (Some (normalize d)) pr =
      Inr (vmul (vneg (normalize d)) cd, (0, 0, 0), (0, 0, 1))"
    using pr place_camera_direction[of _ "normalize d"] by (auto simp: normalize_idem)
  show ?thesis
    using assms(2) by (simp add: d render_view_def fc pc Let_def)
qed

lemma render_view_Inr:
  assumes "render_view m vd pr cb = Inr f"
  shows "valid_request vd pr \<and>
         (\<exists>a upv z. zoom_step (max_size (bounds m)) cb = Inr z \<and>
            f = frame_of m (vmul a (diagonal_size (bounds m) * 1.8)) upv z)"
proof -
  have v: "valid_request vd pr"
    using assms render_view_invalid[of vd pr m cb] by auto
  obtain z where z: "zoom_step (max_size (bounds m)) cb = Inr z"
    using assms render_view_zoom_error[OF v, of m cb]
    by (cases "zoom_step (max_size (bounds m)) cb") auto
  from render_view_valid[OF v z] assms z show ?thesis using v by auto
qed

lemma box_zoom:
  "zoom_step (max_size (bounds box_mesh)) (Some [-2, 2, -1, 1, -1/2, 1/2]) = Inr (Some (7/8))"
  "zoom_step (max_size (bounds box_mesh)) None = Inr None"
  by (simp_all add: zoom_step_def box_sizes)

lemma box_render_direction:
  "render_view box_mesh (Some (0, 0, 1)) None (Some [-2, 2, -1, 1, -1/2, 1/2]) =
     Inr (frame_of box_mesh (0, 0, - (sqrt 21 * 1.8)) (0, 0, 1) (Some (7/8)))"
  "render_view box_mesh (Some (0, 0, 1)) None None =
     Inr (frame_of box_mesh (0, 0, - (sqrt 21 * 1.8)) (0, 0, 1) None)"
proof -
  have t: "\<not> truthy None" by simp
  have n: "normalize (0, 0, 1) = (0, 0, 1)" by (simp add: normalize_def)
  show "render_view box_mesh (Some (0, 0, 1)) None (Some [-2, 2, -1, 1, -1/2, 1/2]) =
     Inr (frame_of box_mesh (0, 0, - (sqrt 21 * 1.8)) (0, 0, 1) (Some (7/8)))"
    using render_view_direction[OF t box_zoom(1), of "(0, 0, 1)"] by (simp add: n box_sizes)
  show "render_view box_mesh (Some (0, 0, 1)) None None =
     Inr (frame_of box_mesh (0, 0, - (sqrt 21 * 1.8)) (0, 0, 1) None)"
    using render_view_direction[OF t box_zoom(2), of "(0, 0, 1)"] by (simp add: n box_sizes)
qed

section \<open>The claims\<close>

text \<open>
  C1 (as the claim states it, refuted). The claim says that no two returned directions have
  an absolute dot product above 0.9, so that near-antipodal pairs are filtered out. On the
  box, four views are returned and the third and the fourth, \<open>(1,0,0)\<close> and \<open>(-1,0,0)\<close>,
  are antipodal: the absolute value of their dot product is 1.
\<close>

theorem C1_antipodal_pair_returned:
  "find_best_front_views box_axes box_mesh 4 =
     Inr [((0, 0, 1), 7/2), ((0, -1, 0), 7/2), ((1, 0, 0), 5/2), ((-1, 0, 0), 5/2)]
   \<and> \<bar>dot (1, 0, 0) (-1, 0, 0)\<bar> > 0.9"
  by (simp add: box_best_4)

text \<open>
  C1 (amended). In the sequence returned by \<open>find_best_front_views\<close> no two directions at
  different places have a raw (signed) dot product above 0.9: line 142 tests
  \<^verbatim>\<open>np.dot(view_dir, existing_view) > 0.9\<close>, without the absolute value.
\<close>

theorem C1_raw_dot_dedup:
  assumes "find_best_front_views axes m n = Inr r"
    and "i < length r" and "j < length r" and "i \<noteq> j"
  shows "dot (fst (r ! i)) (fst (r ! j)) \<le> 0.9"
proof -
  obtain comps where c: "PCA_fit axes (points m) = Inr comps"
    using assms(1) by (auto simp: find_best_front_views_def split: sum.splits)
  define u where
    "u = select_unique n (sort_by_score (map (score_view m comps) (all_candidates comps))) []"
  have r: "r = map (\<lambda>(view_dir, score, name). (view_dir, score)) u"
    using assms(1) c by (simp add: find_best_front_views_def u_def Let_def)
  have sw: "sorted_wrt dissimilar u"
    unfolding u_def by (rule select_unique_dissimilar) simp
  have len: "length r = length u" by (simp add: r)
  have f: "\<And>k. k < length u \<Longrightarrow> fst (r ! k) = fst (u ! k)"
    by (simp add: r split: prod.splits)
  have lt: "\<And>a b. a < b \<Longrightarrow> b < length u \<Longrightarrow> dot (fst (u ! b)) (fst (u ! a)) \<le> 0.9"
    using sw by (simp add: sorted_wrt_iff_nth_less dissimilar_def)
  show ?thesis
  proof (cases "i < j")
    case True
    then show ?thesis using lt[of i j] assms len f by (simp add: dot_commute)
  next
    case False
    then have "j < i" using assms(4) by simp
    then show ?thesis using lt[of j i] assms len f by (simp add: dot_commute)
  qed
qed

theorem C1_raw_dot_dedup_witness:
  "find_best_front_views box_axes box_mesh 4 =
     Inr [((0, 0, 1), 7/2), ((0, -1, 0), 7/2), ((1, 0, 0), 5/2), ((-1, 0, 0), 5/2)]
   \<and> (2::nat) < length [((0, 0, 1), 7/2), ((0, -1, 0), 7/2), ((1, 0, 0), 5/2), ((-1::real, 0::real, 0::real), 5/2 :: real)]
   \<and> (3::nat) < length [((0, 0, 1), 7/2), ((0, -1, 0), 7/2), ((1, 0, 0), 5/2), ((-1::real, 0::real, 0::real), 5/2 :: real)]
   \<and> (2::nat) \<noteq> 3
   \<and> dot (fst ([((0, 0, 1), 7/2), ((0, -1, 0), 7/2), ((1, 0, 0), 5/2), ((-1, 0, 0), 5/2 :: real)] ! 2))
          (fst ([((0, 0, 1), 7/2), ((0, -1, 0), 7/2), ((1, 0, 0), 5/2), ((-1, 0, 0), 5/2 :: real)] ! 3))
        \<le> 0.9"
proof -
  have h: "find_best_front_views box_axes box_mesh 4 =
     Inr [((0, 0, 1), 7/2), ((0, -1, 0), 7/2), ((1, 0, 0), 5/2), ((-1, 0, 0), 5/2)]"
    by (rule box_best_4)
  from C1_raw_dot_dedup [OF h, of 2 3] h show ?thesis by simp
qed

text \<open>
  C2. For every candidate of the generated list, the scorer returns the normalised direction
  \<open>d\<close> with the score 2.0 times the largest \<open>|d \<cdot> a|\<close> over the three principal axes
  \<open>a\<close>, plus 3.0 times the visibility, plus 1.0 exactly when the candidate is one of the two
  priority candidates, "top" \<open>(0,0,1)\<close> and "front" \<open>(0,-1,0)\<close>; the priority flag is set for
  these two and for no other candidate.
\<close>

theorem C2_final_score:
  assumes "(v, name, prio) \<in> set (all_candidates (c0, c1, c2))"
  shows "score_view m (c0, c1, c2) (v, name, prio) =
           (normalize v,
            2.0 * Max ((\<lambda>a. \<bar>dot (normalize v) a\<bar>) ` {c0, c1, c2})
              + 3.0 * visibility_score m (normalize v)
              + (if (v, name) \<in> set priority_views then 1.0 else 0),
            name)
         \<and> ((v, name) \<in> set priority_views \<longleftrightarrow> prio)"
proof -
  have p: "(v, name) \<in> set priority_views \<longleftrightarrow> prio"
    using assms by (auto simp: all_candidates_def priority_views_def standard_views_def)
  show ?thesis
    unfolding Max3 using p by (simp add: normalize_def Let_def)
qed

theorem C2_final_score_witness:
  "((0, 0, 1), ''top'', True) \<in> set (all_candidates (box_axes []))
   \<and> score_view box_mesh (box_axes []) ((0, 0, 1), ''top'', True) =
           (normalize (0, 0, 1),
            2.0 * Max ((\<lambda>a. \<bar>dot (normalize (0, 0, 1)) a\<bar>) ` {(1, 0, 0), (0, 1, 0), (0, 0, 1)})
              + 3.0 * visibility_score box_mesh (normalize (0, 0, 1))
              + (if ((0, 0, 1), ''top'') \<in> set priority_views then 1.0 else 0),
            ''top'')"
proof -
  have h: "((0, 0, 1), ''top'', True) \<in> set (all_candidates ((1, 0, 0), (0, 1, 0), (0, 0, 1)))"
    by (simp add: all_candidates_def priority_views_def)
  from C2_final_score [OF h, of box_mesh] h show ?thesis by (simp add: box_axes_def)
qed

text \<open>
  C3 (the code at the failing input). Asked for \<open>n = 0\<close> views of the box, the loop
  accepts the first candidate before it tests the length, and one view is returned, where
  the claim allows none. For \<open>n \<ge> 1\<close> the length is at most \<open>n\<close>, and for every \<open>n\<close> the
  result is in descending order of the score, ties in the order of generation, with unit
  directions: these are the facts \<open>find_best_length\<close>, \<open>find_best_descending\<close>,
  \<open>find_best_ties\<close> and \<open>find_best_unit\<close> above.
\<close>

theorem C3_zero_views_returns_one:
  "find_best_front_views box_axes box_mesh 0 = Inr [((0, 0, 1), 7/2)]
   \<and> \<not> int (length [((0::real, 0::real, 1::real), 7/2 :: real)]) \<le> 0"
  by (simp add: box_best_0)

text \<open>
  C4. With at least 100000 cells the visibility is the constant 0.6 for every direction. With
  a number of cells strictly between 0 and 100000 it is the fraction of the face normals
  \<open>f\<close> with \<open>f \<cdot> d > 0\<close> (the normals stored with the cells when there are some, the
  computed ones otherwise); when reading the normals fails it is 0.6, and
  \<open>find_best_front_views\<close> still returns a result.
\<close>

theorem C4_visibility:
  "(100000 \<le> n_cells m \<longrightarrow> visibility_score m d = 0.6)
   \<and> (0 < n_cells m \<and> n_cells m < 100000 \<longrightarrow>
        (\<forall>fns. fns \<noteq> [] \<and>
               (cell_data_Normals m = Some fns
                \<or> cell_data_Normals m = None \<and> face_normals m = Some fns) \<longrightarrow>
           visibility_score m d =
             real (length (filter (\<lambda>f. dot f d > 0) fns)) / real (length fns))
        \<and> (cell_data_Normals m = None \<and> face_normals m = None \<longrightarrow>
             visibility_score m d = 0.6
             \<and> (3 \<le> length (points m) \<longrightarrow> (\<exists>r. find_best_front_views axes m n = Inr r))))"
  by (auto simp: visibility_score_def find_best_front_views_def PCA_fit_def)

theorem C4_visibility_witness:
  "100000 \<le> n_cells (box_mesh\<lparr>n_cells := 100000\<rparr>)
   \<and> visibility_score (box_mesh\<lparr>n_cells := 100000\<rparr>) (0, 0, 1) = 0.6
   \<and> 0 < n_cells box_mesh \<and> n_cells box_mesh < 100000
   \<and> cell_data_Normals box_mesh = None
   \<and> face_normals box_mesh =
       Some [(0, 0, -1), (0, 0, 1), (0, -1, 0), (0, 1, 0), (-1, 0, 0), (1, 0, 0)]
   \<and> visibility_score box_mesh (0, 0, 1) =
       real (length (filter (\<lambda>f. dot f (0, 0, 1) > 0)
          [(0, 0, -1), (0, 0, 1), (0, -1, 0), (0, 1, 0), (-1, 0, 0), (1, 0, 0)]))
       / real (length [(0, 0, -1), (0, 0, 1), (0, -1, 0), (0, 1, 0), (-1, 0, 0), (1::real, 0::real, 0::real)])
   \<and> face_normals (box_mesh\<lparr>face_normals := None\<rparr>) = None
   \<and> visibility_score (box_mesh\<lparr>face_normals := None\<rparr>) (0, 0, 1) = 0.6
   \<and> 3 \<le> length (points (box_mesh\<lparr>face_normals := None\<rparr>))
   \<and> (\<exists>r. find_best_front_views box_axes (box_mesh\<lparr>face_normals := None\<rparr>) 3 = Inr r)"
proof -
  have g: "0 < n_cells box_mesh \<and> n_cells box_mesh < 100000
     \<and> cell_data_Normals box_mesh = None
     \<and> face_normals box_mesh =
       Some [(0, 0, -1), (0, 0, 1), (0, -1, 0), (0, 1, 0), (-1, 0, 0), (1, 0, 0)]"
    by (simp add: box_mesh_def)
  have b: "100000 \<le> n_cells (box_mesh\<lparr>n_cells := 100000\<rparr>)" by simp
  have f: "0 < n_cells (box_mesh\<lparr>face_normals := None\<rparr>)
     \<and> n_cells (box_mesh\<lparr>face_normals := None\<rparr>) < 100000
     \<and> cell_data_Normals (box_mesh\<lparr>face_normals := None\<rparr>) = None
     \<and> face_normals (box_mesh\<lparr>face_normals := None\<rparr>) = None
     \<and> 3 \<le> length (points (box_mesh\<lparr>face_normals := None\<rparr>))"
    by (simp add: box_mesh_def)
  have 1: "visibility_score (box_mesh\<lparr>n_cells := 100000\<rparr>) (0, 0, 1) = 0.6"
    using C4_visibility [where m = "box_mesh\<lparr>n_cells := 100000\<rparr>" and d = "(0, 0, 1)"] b
    by blast
  have 2: "visibility_score box_mesh (0, 0, 1) =
       real (length (filter (\<lambda>f. dot f (0, 0, 1) > 0)
          [(0, 0, -1), (0, 0, 1), (0, -1, 0), (0, 1, 0), (-1, 0, 0), (1, 0, 0)]))
       / real (length [(0, 0, -1), (0, 0, 1), (0, -1, 0), (0, 1, 0), (-1, 0, 0), (1::real, 0::real, 0::real)])"
    using C4_visibility [where m = box_mesh and d = "(0, 0, 1)"] g by blast
  have 3: "visibility_score (box_mesh\<lparr>face_normals := None\<rparr>) (0, 0, 1) = 0.6
       \<and> (\<exists>r. find_best_front_views box_axes (box_mesh\<lparr>face_normals := None\<rparr>) 3 = Inr r)"
    using C4_visibility [where m = "box_mesh\<lparr>face_normals := None\<rparr>" and d = "(0, 0, 1)"
        and axes = box_axes and n = 3] f by blast
  show ?thesis using g b f 1 2 3 by blast
qed

text \<open>
  C5. When the zoom step does not raise: for a unit direction \<open>d\<close> the camera is at
  \<open>-d\<close> times 1.8 times the diagonal of the bounding box, looks at the origin with a view angle
  of 30 and the up vector \<open>(0,0,1)\<close>; for a preset name (in any case of letters) the camera
  is on the axis of the preset at the same distance, with the up vector \<open>(0,1,0)\<close> for top and
  bottom and \<open>(0,0,1)\<close> for the other four.
\<close>

theorem C5_camera_placement:
  assumes "zoom_step (max_size (bounds m)) cb = Inr z"
  shows "(norm3 d = 1 \<longrightarrow>
            (\<exists>f. render_view m (Some d) None cb = Inr f
               \<and> position f = vmul (vneg d) (1.8 * diagonal_size (bounds m))
               \<and> focal_point f = (0, 0, 0) \<and> view_angle f = 30 \<and> up f = (0, 0, 1)))
       \<and> ((lower p, axis, upv) \<in> set preset_table \<longrightarrow>
            (\<exists>g. render_view m vd (Some p) cb = Inr g
               \<and> position g = vmul axis (1.8 * diagonal_size (bounds m))
               \<and> norm3 (position g) = 1.8 * diagonal_size (bounds m)
               \<and> focal_point g = (0, 0, 0) \<and> view_angle g = 30 \<and> up g = upv
               \<and> upv = (if lower p = ''top'' \<or> lower p = ''bottom'' then (0, 1, 0) else (0, 0, 1))))"
proof (intro conjI impI)
  assume u: "norm3 d = 1"
  have "\<not> truthy None" by simp
  from render_view_direction[OF this assms, of d] u
  show "\<exists>f. render_view m (Some d) None cb = Inr f
               \<and> position f = vmul (vneg d) (1.8 * diagonal_size (bounds m))
               \<and> focal_point f = (0, 0, 0) \<and> view_angle f = 30 \<and> up f = (0, 0, 1)"
    by (simp add: frame_of_def normalize_unit mult.commute)
next
  assume t: "(lower p, axis, upv) \<in> set preset_table"
  have n: "norm3 axis = 1" by (rule norm3_table_axis[OF t])
  have u: "upv = (if lower p = ''top'' \<or> lower p = ''bottom'' then (0, 1, 0) else (0, 0, 1))"
    using t by (auto simp: preset_table_def)
  have d: "\<bar>diagonal_size (bounds m)\<bar> = diagonal_size (bounds m)"
    using diagonal_size_nonneg[of "bounds m"] by simp
  from render_view_preset[OF t assms, of vd] u
  show "\<exists>g. render_view m vd (Some p) cb = Inr g
               \<and> position g = vmul axis (1.8 * diagonal_size (bounds m))
               \<and> norm3 (position g) = 1.8 * diagonal_size (bounds m)
               \<and> focal_point g = (0, 0, 0) \<and> view_angle g = 30 \<and> up g = upv
               \<and> upv = (if lower p = ''top'' \<or> lower p = ''bottom'' then (0, 1, 0) else (0, 0, 1))"
    by (simp add: frame_of_def mult.commute norm3_vmul n abs_mult d del: norm3.simps)
qed

theorem C5_camera_placement_witness:
  "zoom_step (max_size (bounds box_mesh)) None = Inr None
   \<and> norm3 (0, 0, 1) = 1
   \<and> (\<exists>f. render_view box_mesh (Some (0, 0, 1)) None None = Inr f
         \<and> position f = vmul (vneg (0, 0, 1)) (1.8 * diagonal_size (bounds box_mesh))
         \<and> focal_point f = (0, 0, 0) \<and> view_angle f = 30 \<and> up f = (0, 0, 1))
   \<and> (lower ''top'', (0, 0, 1), (0, 1, 0)) \<in> set preset_table
   \<and> (\<exists>g. render_view box_mesh None (Some ''top'') None = Inr g
         \<and> position g = vmul (0, 0, 1) (1.8 * diagonal_size (bounds box_mesh))
         \<and> norm3 (position g) = 1.8 * diagonal_size (bounds box_mesh)
         \<and> focal_point g = (0, 0, 0) \<and> view_angle g = 30 \<and> up g = (0, 1, 0))"
proof -
  have h1: "zoom_step (max_size (bounds box_mesh)) None = Inr None" by (rule box_zoom)
  have h2: "norm3 (0, 0, 1) = 1" by simp
  have l: "lower ''top'' = ''top''" by code_simp
  have h3: "(lower ''top'', (0, 0, 1), (0, 1, 0)) \<in> set preset_table"
    unfolding l by (simp add: preset_table_def)
  note C = C5_camera_placement [OF h1, where d = "(0, 0, 1)" and p = "''top''"
      and axis = "(0, 0, 1)" and upv = "(0, 1, 0)" and vd = None]
  have a: "\<exists>f. render_view box_mesh (Some (0, 0, 1)) None None = Inr f
         \<and> position f = vmul (vneg (0, 0, 1)) (1.8 * diagonal_size (bounds box_mesh))
         \<and> focal_point f = (0, 0, 0) \<and> view_angle f = 30 \<and> up f = (0, 0, 1)"
    using C h2 by blast
  have b: "\<exists>g. render_view box_mesh None (Some ''top'') None = Inr g
         \<and> position g = vmul (0, 0, 1) (1.8 * diagonal_size (bounds box_mesh))
         \<and> norm3 (position g) = 1.8 * diagonal_size (bounds box_mesh)
         \<and> focal_point g = (0, 0, 0) \<and> view_angle g = 30 \<and> up g = (0, 1, 0)"
    using C h3 by blast
  show ?thesis using h1 h2 h3 a b by blast
qed

text \<open>
  C6. When \<open>render_view\<close> has set a camera and the renderer reported at least six bounds
  with a positive visible width, the zoom factor is 0.875 / (visible width / largest extent)
  clamped into [0.5, 3.0]; the call does set a camera when the request names a view and the
  largest extent is not zero. Every zoom factor that is applied lies in [0.5, 3.0]. Without
  bounds, or with fewer than six, no zoom is applied.
\<close>

theorem C6_zoom_factor:
  "(render_view m vd pr (Some cb) = Inr f \<and> 6 \<le> length cb \<and> 0 < visible_width cb \<longrightarrow>
      zoom f = Some (max 0.5 (min 3.0 (0.875 / (visible_width cb / max_size (bounds m))))))
   \<and> (valid_request vd pr \<and> max_size (bounds m) \<noteq> 0 \<longrightarrow>
        (\<exists>g. render_view m vd pr (Some cb) = Inr g))
   \<and> (render_view m vd pr cbo = Inr f' \<and> zoom f' = Some z \<longrightarrow> 0.5 \<le> z \<and> z \<le> 3.0)
   \<and> (valid_request vd pr \<and> (cbo = None \<or> (\<exists>cb'. cbo = Some cb' \<and> length cb' < 6)) \<longrightarrow>
        (\<exists>h. render_view m vd pr cbo = Inr h \<and> zoom h = None))"
proof (intro conjI impI)
  assume a: "render_view m vd pr (Some cb) = Inr f \<and> 6 \<le> length cb \<and> 0 < visible_width cb"
  then obtain z' where z': "zoom_step (max_size (bounds m)) (Some cb) = Inr z'" "zoom f = z'"
    using render_view_Inr[of m vd pr "Some cb" f] by (auto simp: frame_of_def)
  have "max_size (bounds m) \<noteq> 0"
    using z'(1) a by (auto simp: zoom_step_def visible_width_def Let_def split: if_splits)
  then show "zoom f = Some (max 0.5 (min 3.0 (0.875 / (visible_width cb / max_size (bounds m)))))"
    using a z' by (simp add: zoom_step_applied)
next
  assume a: "valid_request vd pr \<and> max_size (bounds m) \<noteq> 0"
  have "\<exists>z'. zoom_step (max_size (bounds m)) (Some cb) = Inr z'"
    using a by (auto simp: zoom_step_def Let_def)
  then show "\<exists>g. render_view m vd pr (Some cb) = Inr g"
    using render_view_valid[of vd pr m "Some cb"] a by blast
next
  assume a: "render_view m vd pr cbo = Inr f' \<and> zoom f' = Some z"
  then obtain z' where "zoom_step (max_size (bounds m)) cbo = Inr z'" "zoom f' = z'"
    using render_view_Inr[of m vd pr cbo f'] by (auto simp: frame_of_def)
  then have "0.5 \<le> z \<and> z \<le> 3.0" using a zoom_step_range by auto
  then show "0.5 \<le> z" "z \<le> 3.0" by simp_all
next
  assume a: "valid_request vd pr \<and> (cbo = None \<or> (\<exists>cb'. cbo = Some cb' \<and> length cb' < 6))"
  then have "zoom_step (max_size (bounds m)) cbo = Inr None"
    by (intro zoom_step_skipped) auto
  from render_view_valid[OF _ this, of vd pr] a
  show "\<exists>h. render_view m vd pr cbo = Inr h \<and> zoom h = None"
    by (auto simp: frame_of_def)
qed

theorem C6_zoom_factor_witness:
  "render_view box_mesh (Some (0, 0, 1)) None (Some [-2, 2, -1, 1, -1/2, 1/2]) =
     Inr (frame_of box_mesh (0, 0, - (sqrt 21 * 1.8)) (0, 0, 1) (Some (7/8)))
   \<and> (6::nat) \<le> length [-2, 2, -1, 1, -1/2, 1/2 :: real]
   \<and> 0 < visible_width [-2, 2, -1, 1, -1/2, 1/2]
   \<and> zoom (frame_of box_mesh (0, 0, - (sqrt 21 * 1.8)) (0, 0, 1) (Some (7/8))) =
       Some (max 0.5 (min 3.0 (0.875 / (visible_width [-2, 2, -1, 1, -1/2, 1/2] / max_size (bounds box_mesh)))))
   \<and> valid_request (Some (0, 0, 1)) None \<and> max_size (bounds box_mesh) \<noteq> 0
   \<and> (0.5::real) \<le> 7/8 \<and> (7/8::real) \<le> 3.0
   \<and> (\<exists>h. render_view box_mesh (Some (0, 0, 1)) None None = Inr h \<and> zoom h = None)"
proof -
  have h1: "render_view box_mesh (Some (0, 0, 1)) None (Some [-2, 2, -1, 1, -1/2, 1/2]) =
     Inr (frame_of box_mesh (0, 0, - (sqrt 21 * 1.8)) (0, 0, 1) (Some (7/8)))"
    by (rule box_render_direction)
  have h2: "(6::nat) \<le> length [-2, 2, -1, 1, -1/2, 1/2 :: real]" by simp
  have h3: "0 < visible_width [-2, 2, -1, 1, -1/2, 1/2]" by (simp add: visible_width_def)
  have h4: "valid_request (Some (0, 0, 1)) None" by (simp add: valid_request_def)
  have h5: "max_size (bounds box_mesh) \<noteq> 0" by (simp add: box_sizes)
  have h6: "zoom (frame_of box_mesh (0, 0, - (sqrt 21 * 1.8)) (0, 0, 1) (Some (7/8))) = Some (7/8)"
    by (simp add: frame_of_def)
  note C = C6_zoom_factor [where m = box_mesh and vd = "Some (0, 0, 1)" and pr = None
      and cb = "[-2, 2, -1, 1, -1/2, 1/2]" and cbo = "Some [-2, 2, -1, 1, -1/2, 1/2]"
      and f = "frame_of box_mesh (0, 0, - (sqrt 21 * 1.8)) (0, 0, 1) (Some (7/8))"
      and f' = "frame_of box_mesh (0, 0, - (sqrt 21 * 1.8)) (0, 0, 1) (Some (7/8))"
      and z = "7/8"]
  note D = C6_zoom_factor [where m = box_mesh and vd = "Some (0, 0, 1)" and pr = None
      and cbo = None]
  have a: "zoom (frame_of box_mesh (0, 0, - (sqrt 21 * 1.8)) (0, 0, 1) (Some (7/8))) =
       Some (max 0.5 (min 3.0 (0.875 / (visible_width [-2, 2, -1, 1, -1/2, 1/2] / max_size (bounds box_mesh)))))"
    using C h1 h2 h3 by blast
  have b: "(0.5::real) \<le> 7/8 \<and> (7/8::real) \<le> 3.0"
    using C h1 h6 by blast
  have c: "\<exists>h. render_view box_mesh (Some (0, 0, 1)) None None = Inr h \<and> zoom h = None"
    using D h4 by blast
  show ?thesis using h1 h2 h3 h4 h5 a b c by blast
qed

text \<open>
  C7. For every camera that \<open>render_view\<close> sets, with \<open>distance\<close> the norm of position
  minus focal point and \<open>diag\<close> the diagonal of the bounding box, the clipping range is
  (max (distance - diag) (0.1 * distance), distance + diag); when the distance is positive,
  near is positive and below far.
\<close>

theorem C7_clipping_range:
  assumes "render_view m vd pr cb = Inr f"
  shows "clipping_range f =
           (max (norm3 (vsub (position f) (focal_point f)) - diagonal_size (bounds m))
                (0.1 * norm3 (vsub (position f) (focal_point f))),
            norm3 (vsub (position f) (focal_point f)) + diagonal_size (bounds m))
         \<and> (0 < norm3 (vsub (position f) (focal_point f)) \<longrightarrow>
              0 < fst (clipping_range f) \<and> fst (clipping_range f) < snd (clipping_range f))"
proof -
  obtain a upv z where f: "f = frame_of m (vmul a (diagonal_size (bounds m) * 1.8)) upv z"
    using render_view_Inr[OF assms] by blast
  define diag where "diag = diagonal_size (bounds m)"
  define dist where "dist = norm3 (vsub (position f) (focal_point f))"
  have dist: "dist = norm3 a * (diag * 1.8)"
    using diagonal_size_nonneg[of "bounds m"]
    by (simp add: dist_def f frame_of_def vsub_zero norm3_vmul diag_def abs_mult del: norm3.simps)
  have cr: "clipping_range f = (max (dist - diag) (0.1 * dist), dist + diag)"
    by (simp add: f frame_of_def dist_def diag_def vsub_zero mult.commute del: norm3.simps)
  have d0: "0 \<le> diag" by (simp add: diag_def diagonal_size_nonneg)
  have pos: "0 < dist \<Longrightarrow> 0 < diag"
  proof -
    assume "0 < dist"
    then have "diag \<noteq> 0" using dist by auto
    then show ?thesis using d0 by simp
  qed
  show ?thesis
    unfolding dist_def[symmetric] diag_def[symmetric] cr using pos by auto
qed

theorem C7_clipping_range_witness:
  "render_view box_mesh (Some (0, 0, 1)) None None =
     Inr (frame_of box_mesh (0, 0, - (sqrt 21 * 1.8)) (0, 0, 1) None)
   \<and> 0 < norm3 (vsub (position (frame_of box_mesh (0, 0, - (sqrt 21 * 1.8)) (0, 0, 1) None))
                     (focal_point (frame_of box_mesh (0, 0, - (sqrt 21 * 1.8)) (0, 0, 1) None)))
   \<and> 0 < fst (clipping_range (frame_of box_mesh (0, 0, - (sqrt 21 * 1.8)) (0, 0, 1) None))
   \<and> fst (clipping_range (frame_of box_mesh (0, 0, - (sqrt 21 * 1.8)) (0, 0, 1) None))
       < snd (clipping_range (frame_of box_mesh (0, 0, - (sqrt 21 * 1.8)) (0, 0, 1) None))"
proof -
  have h1: "render_view box_mesh (Some (0, 0, 1)) None None =
     Inr (frame_of box_mesh (0, 0, - (sqrt 21 * 1.8)) (0, 0, 1) None)"
    by (rule box_render_direction)
  have h2: "0 < norm3 (vsub (position (frame_of box_mesh (0, 0, - (sqrt 21 * 1.8)) (0, 0, 1) None))
                     (focal_point (frame_of box_mesh (0, 0, - (sqrt 21 * 1.8)) (0, 0, 1) None)))"
    by (simp add: frame_of_def)
  from C7_clipping_range [OF h1] h1 h2 show ?thesis by blast
qed

text \<open>
  C8 (as the claim states it, refuted). The claim says that every name outside the six
  names front, back, top, bottom, left, right is rejected. The name TOP is none of the six
  strings and \<open>render_view\<close> accepts it: on the box, with the box's own bounds reported
  as visible, the camera of the preset top is set.
\<close>

theorem C8_uppercase_accepted:
  "render_view box_mesh None (Some ''TOP'') (Some [-2, 2, -1, 1, -1/2, 1/2]) =
     Inr (frame_of box_mesh (0, 0, sqrt 21 * 1.8) (0, 1, 0) (Some (7/8)))
   \<and> ''TOP'' \<notin> set preset_names"
proof -
  have l: "lower ''TOP'' = ''top''" by code_simp
  have t: "(lower ''TOP'', (0, 0, 1), (0, 1, 0)) \<in> set preset_table"
    unfolding l by (simp add: preset_table_def)
  show ?thesis
    using render_view_preset[OF t box_zoom(1), of None]
    by (simp add: preset_names_def box_sizes)
qed

text \<open>
  C8 (amended). A preset name whose lower-case form is none of the six names is rejected
  with a \<^verbatim>\<open>ValueError\<close> (that names the preset; for the empty name, without a direction,
  the error is the one of a call that names no view). A name whose lower-case form is one of
  the six never gives a \<^verbatim>\<open>ValueError\<close>, and sets a camera whenever the zoom step does not
  raise. No name is mapped to a fallback view.
\<close>

theorem C8_preset_names:
  "(lower p \<notin> set preset_names \<longrightarrow>
      render_view m None (Some p) cb =
        Inl (ValueError (if p = [] then MustSpecifyView else UnknownPreset p)))
   \<and> (lower p \<in> set preset_names \<longrightarrow>
        (\<forall>e. render_view m vd (Some p) cb \<noteq> Inl (ValueError e))
        \<and> (\<forall>z. zoom_step (max_size (bounds m)) cb = Inr z \<longrightarrow>
             (\<exists>f. render_view m vd (Some p) cb = Inr f)))"
proof (intro conjI impI allI)
  assume "lower p \<notin> set preset_names"
  then have "\<not> valid_request None (Some p)" by (simp add: valid_request_def)
  from render_view_invalid[OF this, of m cb]
  show "render_view m None (Some p) cb =
        Inl (ValueError (if p = [] then MustSpecifyView else UnknownPreset p))"
    by simp
next
  fix e
  assume a: "lower p \<in> set preset_names"
  then have ne: "p \<noteq> []" by (auto simp: preset_names_def lower_def)
  then have v: "valid_request vd (Some p)" using a by (simp add: valid_request_def)
  show "render_view m vd (Some p) cb \<noteq> Inl (ValueError e)"
  proof (cases "zoom_step (max_size (bounds m)) cb")
    case (Inl e')
    then have "e' = ZeroDivisionError"
      by (auto simp: zoom_step_def Let_def split: option.splits if_splits)
    with render_view_zoom_error[OF v Inl] show ?thesis by simp
  next
    case (Inr z)
    from render_view_valid[OF v Inr] show ?thesis by auto
  qed
next
  fix z
  assume a: "lower p \<in> set preset_names" and z: "zoom_step (max_size (bounds m)) cb = Inr z"
  then have ne: "p \<noteq> []" by (auto simp: preset_names_def lower_def)
  then have v: "valid_request vd (Some p)" using a by (simp add: valid_request_def)
  from render_view_valid[OF v z] show "\<exists>f. render_view m vd (Some p) cb = Inr f" by blast
qed

theorem C8_preset_names_witness:
  "lower ''diagonal'' \<notin> set preset_names
   \<and> render_view box_mesh None (Some ''diagonal'') None =
       Inl (ValueError (UnknownPreset ''diagonal''))
   \<and> lower ''Front'' \<in> set preset_names
   \<and> zoom_step (max_size (bounds box_mesh)) None = Inr None
   \<and> (\<exists>f. render_view box_mesh None (Some ''Front'') None = Inr f)"
proof -
  have l1: "lower ''diagonal'' = ''diagonal''" by code_simp
  have l2: "lower ''Front'' = ''front''" by code_simp
  have h1: "lower ''diagonal'' \<notin> set preset_names" unfolding l1 by (simp add: preset_names_def)
  have h2: "lower ''Front'' \<in> set preset_names" unfolding l2 by (simp add: preset_names_def)
  have h3: "zoom_step (max_size (bounds box_mesh)) None = Inr None" by (rule box_zoom)
  have a: "render_view box_mesh None (Some ''diagonal'') None =
       Inl (ValueError (UnknownPreset ''diagonal''))"
    using C8_preset_names [where p = "''diagonal''" and m = box_mesh and cb = None] h1 by simp
  have b: "\<exists>f. render_view box_mesh None (Some ''Front'') None = Inr f"
    using C8_preset_names [where p = "''Front''" and m = box_mesh and cb = None and vd = None]
      h2 h3 by blast
  show ?thesis using h1 h2 h3 a b by blast
qed

text \<open>
  C9 (as the claim states it, refuted). The claim says that \<open>render_view\<close> fails on a
  mesh whose largest extent is zero. On the mesh of one point, with visible bounds of zero
  width, it completes: the camera is set at the origin and no zoom is applied.
\<close>

theorem C9_zero_extent_completes:
  "max_size (bounds point_mesh) = 0
   \<and> render_view point_mesh (Some (0, 0, 1)) None (Some [0, 0, 0, 0, 0, 0]) =
       Inr \<lparr>position = (0, 0, 0), focal_point = (0, 0, 0), up = (0, 0, 1), view_angle = 30,
            clipping_range = (0, 0), zoom = None\<rparr>"
proof -
  have z: "zoom_step (max_size (bounds point_mesh)) (Some [0, 0, 0, 0, 0, 0]) = Inr None"
    by (simp add: zoom_step_def)
  have d: "diagonal_size (bounds point_mesh) = 0" by (simp add: diagonal_size_def point_mesh_def)
  have n: "normalize (0, 0, 1) = (0, 0, 1)" by (simp add: normalize_def)
  have m: "max_size (bounds point_mesh) = 0" by (simp add: point_mesh_def max_size_def)
  have "\<not> truthy None" by simp
  from render_view_direction[OF this z, of "(0, 0, 1)"] m show ?thesis
    by (simp add: d n frame_of_def)
qed

text \<open>
  C9 (amended). \<open>render_view\<close> does not check the extent: on a mesh whose largest extent
  is zero, a request that names a view completes, without zoom, whenever the renderer
  reports no bounds, fewer than six, or a visible width that is not positive.
  \<open>find_best_front_views\<close> on a mesh without points fails with the \<^verbatim>\<open>ValueError\<close> of the
  PCA fit.
\<close>

theorem C9_no_validation:
  "(max_size (bounds m) = 0 \<and> valid_request vd pr
      \<and> (cbo = None \<or> (\<exists>cb. cbo = Some cb \<and> (length cb < 6 \<or> visible_width cb \<le> 0))) \<longrightarrow>
      (\<exists>f. render_view m vd pr cbo = Inr f \<and> zoom f = None))
   \<and> (points m' = [] \<longrightarrow> find_best_front_views axes m' n = Inl (ValueError PCAInput))"
proof (intro conjI impI)
  assume a: "max_size (bounds m) = 0 \<and> valid_request vd pr
      \<and> (cbo = None \<or> (\<exists>cb. cbo = Some cb \<and> (length cb < 6 \<or> visible_width cb \<le> 0)))"
  then have "zoom_step (max_size (bounds m)) cbo = Inr None"
    by (intro zoom_step_skipped) auto
  from render_view_valid[OF _ this, of vd pr] a
  show "\<exists>f. render_view m vd pr cbo = Inr f \<and> zoom f = None"
    by (auto simp: frame_of_def)
next
  assume "points m' = []"
  then show "find_best_front_views axes m' n = Inl (ValueError PCAInput)"
    by (simp add: find_best_front_views_def PCA_fit_def)
qed

theorem C9_no_validation_witness:
  "max_size (bounds point_mesh) = 0 \<and> valid_request (Some (0, 0, 1)) None
   \<and> visible_width [0, 0, 0, 0, 0, 0] \<le> 0
   \<and> (\<exists>f. render_view point_mesh (Some (0, 0, 1)) None (Some [0, 0, 0, 0, 0, 0]) = Inr f
          \<and> zoom f = None)
   \<and> points empty_mesh = []
   \<and> find_best_front_views box_axes empty_mesh 3 = Inl (ValueError PCAInput)"
proof -
  have h1: "max_size (bounds point_mesh) = 0" by (simp add: point_mesh_def max_size_def)
  have h2: "valid_request (Some (0, 0, 1)) None" by (simp add: valid_request_def)
  have h3: "visible_width [0, 0, 0, 0, 0, 0] \<le> 0" by (simp add: visible_width_def)
  have h4: "points empty_mesh = []" by (simp add: empty_mesh_def)
  note C = C9_no_validation [where m = point_mesh and vd = "Some (0, 0, 1)" and pr = None
      and cbo = "Some [0, 0, 0, 0, 0, 0]" and m' = empty_mesh and axes = box_axes and n = 3]
  have a: "\<exists>f. render_view point_mesh (Some (0, 0, 1)) None (Some [0, 0, 0, 0, 0, 0]) = Inr f
          \<and> zoom f = None"
    using C h1 h2 h3 by blast
  have b: "find_best_front_views box_axes empty_mesh 3 = Inl (ValueError PCAInput)"
    using C h4 by blast
  show ?thesis using h1 h2 h3 h4 a b by blast
qed

text \<open>
  C10. Preset names are matched without regard to case: a name and its lower-case form
  give the same camera or fail alike (with the same error, the unknown-preset error naming
  the preset as it was passed).
\<close>

theorem C10_case_insensitive:
  "(render_view m vd (Some s) cb = Inr f
      \<longleftrightarrow> render_view m vd (Some (lower s)) cb = Inr f)
   \<and> (render_view m vd (Some s) cb = Inl ZeroDivisionError
      \<longleftrightarrow> render_view m vd (Some (lower s)) cb = Inl ZeroDivisionError)
   \<and> (render_view m vd (Some s) cb = Inl (ValueError MustSpecifyView)
      \<longleftrightarrow> render_view m vd (Some (lower s)) cb = Inl (ValueError MustSpecifyView))
   \<and> (render_view m vd (Some s) cb = Inl (ValueError (UnknownPreset s))
      \<longleftrightarrow> render_view m vd (Some (lower s)) cb = Inl (ValueError (UnknownPreset (lower s))))"
proof (cases "valid_request vd (Some s)")
  case True
  have t: "truthy (Some (lower s)) = truthy (Some s)" by (simp add: lower_Nil_iff)
  have v: "valid_request vd (Some (lower s))"
    using True by (auto simp: valid_request_def lower_idem lower_Nil_iff split: if_splits)
  have eq: "render_view m vd (Some (lower s)) cb = render_view m vd (Some s) cb"
  proof (cases "truthy (Some s)")
    case False
    then show ?thesis by simp (simp add: lower_def)
  next
    case tr: True
    then obtain axis upv where tb: "(lower s, axis, upv) \<in> set preset_table"
      using True preset_table_names[of s] by (auto simp: valid_request_def)
    then have tb': "(lower (lower s), axis, upv) \<in> set preset_table" by (simp add: lower_idem)
    show ?thesis
    proof (cases "zoom_step (max_size (bounds m)) cb")
      case (Inl e)
      then show ?thesis using render_view_zoom_error[OF True Inl] render_view_zoom_error[OF v Inl] by simp
    next
      case (Inr z)
      then show ?thesis using render_view_preset[OF tb Inr] render_view_preset[OF tb' Inr] by simp
    qed
  qed
  have nu: "\<And>x. render_view m vd (Some s) cb \<noteq> Inl (ValueError (UnknownPreset x))"
  proof (cases "zoom_step (max_size (bounds m)) cb")
    case (Inl e)
    then have "e = ZeroDivisionError"
      by (auto simp: zoom_step_def Let_def split: option.splits if_splits)
    with render_view_zoom_error[OF True Inl] show "\<And>x. render_view m vd (Some s) cb \<noteq> Inl (ValueError (UnknownPreset x))" by simp
  next
    case (Inr z)
    from render_view_valid[OF True Inr] show "\<And>x. render_view m vd (Some s) cb \<noteq> Inl (ValueError (UnknownPreset x))" by auto
  qed
  show ?thesis unfolding eq using nu by simp
next
  case False
  have t: "truthy (Some (lower s)) = truthy (Some s)" by (simp add: lower_Nil_iff)
  have v: "\<not> valid_request vd (Some (lower s))"
    using False by (auto simp: valid_request_def lower_idem lower_Nil_iff split: if_splits)
  show ?thesis
    using render_view_invalid[OF False, of m cb] render_view_invalid[OF v, of m cb]
    by (auto simp: lower_Nil_iff)
qed

end
